theory Spec2Isabelle
  imports Main "HOL-Library.Char_ord" "HOL-Library.List_Lexorder" "HOL-Library.Multiset"
begin

section \<open>Data model\<close>

text \<open>
  A meal as TheMealDB's filter endpoint returns it and as the JSDoc of \<^verbatim>\<open>index.js\<close>
  types it: three string fields. Two meals are the same recipe when their \<open>idMeal\<close>
  agree; the other fields may differ.
\<close>

record meal =
  idMeal :: string
  strMeal :: string
  strMealThumb :: string

text \<open>The identifiers occurring in a list of meals.\<close>

definition ids :: "meal list \<Rightarrow> string set" where
  "ids meals = idMeal ` set meals"

section \<open>The ES6 Map, as far as \<^verbatim>\<open>buildMealMap\<close> uses it\<close>

text \<open>
  A JavaScript \<^verbatim>\<open>Map\<close> keeps its entries in insertion order. \<^verbatim>\<open>map.set(k, v)\<close> on a
  key that is already present replaces the value of the existing entry and leaves the
  entry where it is; on a new key it appends an entry. \<^verbatim>\<open>map.values()\<close> yields the
  values in entry order.
\<close>

type_synonym jsmap = "(string \<times> meal) list"

fun mapSet :: "string \<Rightarrow> meal \<Rightarrow> jsmap \<Rightarrow> jsmap" where
  "mapSet k v [] = [(k, v)]"
| "mapSet k v ((k', v') # es) =
     (if k' = k then (k', v) # es else (k', v') # mapSet k v es)"

definition mapValues :: "jsmap \<Rightarrow> meal list" where
  "mapValues m = map snd m"

text \<open>
  \<^verbatim>\<open>meals.reduce((map, meal) => { map.set(meal.idMeal, meal); return map; }, new Map())\<close>:
  a left fold from the empty map.
\<close>

definition buildMealMap :: "meal list \<Rightarrow> jsmap" where
  "buildMealMap meals = foldl (\<lambda>m meal. mapSet (idMeal meal) meal m) [] meals"

text \<open>
  The two lines of \<^verbatim>\<open>main\<close> that deduplicate:
  \<^verbatim>\<open>uniqueMap = buildMealMap(intersection); uniqueMeals = Array.from(uniqueMap.values())\<close>.
\<close>

definition dedupe :: "meal list \<Rightarrow> meal list" where
  "dedupe meals = mapValues (buildMealMap meals)"

section \<open>Intersection\<close>

text \<open>
  \<^verbatim>\<open>listA.filter((mealA) => listB.some((mealB) => mealB.idMeal === mealA.idMeal))\<close>
\<close>

definition intersectTwoLists :: "meal list \<Rightarrow> meal list \<Rightarrow> meal list" where
  "intersectTwoLists listA listB =
     filter (\<lambda>mealA. list_ex (\<lambda>mealB. idMeal mealB = idMeal mealA) listB) listA"

text \<open>
  The recursion of \<^verbatim>\<open>intersectAllRecursively(lists, index)\<close>, branch by branch. With two
  or more lists and an index beyond the last one the JavaScript never reaches a base
  case; here that is the value \<open>None\<close>.
\<close>

partial_function (option) intersectAllRecursively :: "meal list list \<Rightarrow> nat \<Rightarrow> meal list option" where
  "intersectAllRecursively mealLists index =
     (if length mealLists = 0 then Some []
      else if length mealLists = 1 then Some (mealLists ! 0)
      else if index = length mealLists - 1 then Some (mealLists ! index)
      else Option.bind (intersectAllRecursively mealLists (index + 1))
             (\<lambda>restIntersection. Some (intersectTwoLists (mealLists ! index) restIntersection)))"

declare intersectAllRecursively.simps [code]

text \<open>The call \<^verbatim>\<open>intersectAllRecursively(mealLists)\<close>: \<open>index\<close> takes its default 0.\<close>

definition intersectAll :: "meal list list \<Rightarrow> meal list option" where
  "intersectAll mealLists = intersectAllRecursively mealLists 0"

text \<open>
  The same recursion, returning instead of the result the number of times the branch
  taken calls \<^verbatim>\<open>intersectTwoLists\<close>: none in the three base cases, one more than the
  recursive call in the recursive step.
\<close>

partial_function (option) intersectTwoListsCalls :: "meal list list \<Rightarrow> nat \<Rightarrow> nat option" where
  "intersectTwoListsCalls mealLists index =
     (if length mealLists = 0 then Some 0
      else if length mealLists = 1 then Some 0
      else if index = length mealLists - 1 then Some 0
      else Option.bind (intersectTwoListsCalls mealLists (index + 1)) (\<lambda>n. Some (n + 1)))"

declare intersectTwoListsCalls.simps [code]

text \<open>
  The iterative reading of the reduction: start from the first list and intersect the
  accumulator with each further list in turn, left to right.
\<close>

definition intersectAllFold :: "meal list list \<Rightarrow> meal list" where
  "intersectAllFold mealLists =
     (case mealLists of [] \<Rightarrow> [] | first # others \<Rightarrow> foldl intersectTwoLists first others)"

section \<open>Strings\<close>

text \<open>
  A JavaScript string is a sequence of UTF-16 code units. The model covers the strings
  whose code units are all below 256, one \<^typ>\<open>char\<close> per code unit, so that \<open>length\<close>
  is the \<^verbatim>\<open>.length\<close> of the source. In that range \<^verbatim>\<open>String.prototype.trim\<close> strips
  TAB, LF, VT, FF, CR, SPACE and NO-BREAK SPACE, and \<^verbatim>\<open>toLowerCase\<close> maps A-Z and the
  Latin-1 capitals (U+00C0-U+00DE without the multiplication sign U+00D7) 32 places up.
\<close>

definition isWhiteSpace :: "char \<Rightarrow> bool" where
  "isWhiteSpace c = ((of_char c :: nat) \<in> {9, 10, 11, 12, 13, 32, 160})"

definition trim :: "string \<Rightarrow> string" where
  "trim s = rev (dropWhile isWhiteSpace (rev (dropWhile isWhiteSpace s)))"

definition isUpperCase :: "char \<Rightarrow> bool" where
  "isUpperCase c =
     (let n = (of_char c :: nat)
      in (65 \<le> n \<and> n \<le> 90) \<or> (192 \<le> n \<and> n \<le> 214) \<or> (216 \<le> n \<and> n \<le> 222))"

definition toLowerChar :: "char \<Rightarrow> char" where
  "toLowerChar c = (if isUpperCase c then char_of ((of_char c :: nat) + 32) else c)"

definition toLowerCase :: "string \<Rightarrow> string" where
  "toLowerCase s = map toLowerChar s"

text \<open>
  \<^verbatim>\<open>raw.split(",")\<close>: the pieces between the commas, empty pieces included; the empty
  string gives one empty piece. (The empty result of the recursive call cannot occur;
  its branch only completes the case distinction.)
\<close>

fun splitComma :: "string \<Rightarrow> string list" where
  "splitComma [] = [[]]"
| "splitComma (c # cs) =
     (if c = CHR '','' then [] # splitComma cs
      else (case splitComma cs of [] \<Rightarrow> [[c]] | p # ps \<Rightarrow> (c # p) # ps))"

text \<open>\<^verbatim>\<open>Array.prototype.join\<close> on an array of strings.\<close>

fun join :: "string \<Rightarrow> string list \<Rightarrow> string" where
  "join sep [] = []"
| "join sep [p] = p"
| "join sep (p # ps) = p @ sep @ join sep ps"

text \<open>A non-negative integer in a template literal: its decimal digits.\<close>

function showNat :: "nat \<Rightarrow> string" where
  "showNat n = (if n < 10 then [char_of (48 + n)] else showNat (n div 10) @ [char_of (48 + n mod 10)])"
  by pat_completeness auto
termination
  by (relation "measure id") auto

declare showNat.simps [simp del]

section \<open>Parsing and validation\<close>

text \<open>
  \<^verbatim>\<open>raw.split(",").map((s) => s.trim().toLowerCase()).filter((s) => s.length > 0)\<close>
\<close>

definition parseIngredients :: "string \<Rightarrow> string list" where
  "parseIngredients raw =
     filter (\<lambda>s. length s > 0) (map (\<lambda>s. toLowerCase (trim s)) (splitComma raw))"

text \<open>
  Everything the program can throw and \<^verbatim>\<open>main\<close> can catch, by throw site. The three
  validation failures are the three \<^verbatim>\<open>throw new Error(...)\<close> of \<^verbatim>\<open>validateIngredients\<close> that
  a list of strings can reach (the first one, for a value that is not an array, is
  excluded by the type \<^typ>\<open>string list\<close>); a lookup failure carries the message of whatever
  \<^verbatim>\<open>fetchMealsByIngredient\<close> threw; \<open>RangeError\<close> is the stack overflow of a recursion
  that finds no base case.
\<close>

datatype failure =
  EmptyIngredientList
| TooManyIngredients
| IngredientTooShort string
| LookupFailure string
| RangeError


text \<open>
  \<^verbatim>\<open>ingredients.find((i) => i.length < 2)\<close> is the first such element or \<^verbatim>\<open>undefined\<close>, and
  \<^verbatim>\<open>if (tooShort)\<close> tests its truthiness: \<^verbatim>\<open>undefined\<close> and the empty string are falsy.
\<close>

definition validateIngredients :: "string list \<Rightarrow> failure + unit" where
  "validateIngredients ingredients =
     (if length ingredients = 0 then Inl EmptyIngredientList
      else if length ingredients > 6 then Inl TooManyIngredients
      else (case find (\<lambda>i. length i < 2) ingredients of
              None \<Rightarrow> Inr ()
            | Some tooShort \<Rightarrow>
                if tooShort \<noteq> [] then Inl (IngredientTooShort tooShort) else Inr ()))"

section \<open>Display\<close>

text \<open>
  Arrays are objects: \<^verbatim>\<open>sort\<close> reorders the array it is called on, \<^verbatim>\<open>slice\<close> and \<^verbatim>\<open>map\<close>
  allocate a new one. A heap is the list of the arrays allocated so far and a reference
  is an index into it.
\<close>

type_synonym ref = nat
type_synonym heap = "meal list list"

definition alloc :: "meal list \<Rightarrow> heap \<Rightarrow> ref \<times> heap" where
  "alloc xs h = (length h, h @ [xs])"

text \<open>\<^verbatim>\<open>a.slice(start, end)\<close> for non-negative bounds; \<^verbatim>\<open>a.slice()\<close> is \<open>arraySlice h a 0 (length (h ! a))\<close>.\<close>

definition arraySlice :: "heap \<Rightarrow> ref \<Rightarrow> nat \<Rightarrow> nat \<Rightarrow> ref \<times> heap" where
  "arraySlice h a start stop = alloc (take (stop - start) (drop start (h ! a))) h"

text \<open>
  \<^verbatim>\<open>Array.prototype.sort\<close> with a comparison function is stable; for a consistent
  comparator its result is the one a stable insertion sort gives.
\<close>

fun insertBy :: "('a \<Rightarrow> 'a \<Rightarrow> int) \<Rightarrow> 'a \<Rightarrow> 'a list \<Rightarrow> 'a list" where
  "insertBy cmp x [] = [x]"
| "insertBy cmp x (y # ys) = (if cmp x y \<le> 0 then x # y # ys else y # insertBy cmp x ys)"

definition sortBy :: "('a \<Rightarrow> 'a \<Rightarrow> int) \<Rightarrow> 'a list \<Rightarrow> 'a list" where
  "sortBy cmp xs = foldr (insertBy cmp) xs []"

definition arraySort :: "(meal \<Rightarrow> meal \<Rightarrow> int) \<Rightarrow> heap \<Rightarrow> ref \<Rightarrow> ref \<times> heap" where
  "arraySort cmp h a = (a, h[a := sortBy cmp (h ! a)])"

text \<open>
  What the ECMAScript specification asks of a comparison function, for the string
  comparison \<^verbatim>\<open>localeCompare\<close> that the program sorts by: the signs of \<open>cmp a b\<close> and
  \<open>cmp b a\<close> are opposite, and "not after" is transitive. \<^verbatim>\<open>localeCompare\<close> itself depends
  on the locale of the host and is a parameter of the model.
\<close>

definition consistentComparator :: "(string \<Rightarrow> string \<Rightarrow> int) \<Rightarrow> bool" where
  "consistentComparator cmp =
     ((\<forall>a b. (cmp a b < 0) = (0 < cmp b a))
      \<and> (\<forall>a b c. cmp a b \<le> 0 \<and> cmp b c \<le> 0 \<longrightarrow> cmp a c \<le> 0))"

text \<open>Comparison of the code units, a consistent comparator to run the model with.\<close>

definition codeUnitCompare :: "string \<Rightarrow> string \<Rightarrow> int" where
  "codeUnitCompare a b = (if a < b then - 1 else if a = b then 0 else 1)"

definition MAX_RESULTS_TO_SHOW :: nat where
  "MAX_RESULTS_TO_SHOW = 10"

definition resultsHeading :: string where
  "resultsHeading = [CHR 0x0A] @ ''=== Recipe Finder Results ===''"

definition noMatches :: string where
  "noMatches = ''No matching recipes found for those ingredients.'' @ [CHR 0x0A]"

text \<open>\<^verbatim>\<open>`${idx + 1}. ${m.strMeal} (ID: ${m.idMeal})`\<close>\<close>

definition entryLine :: "nat \<Rightarrow> meal \<Rightarrow> string" where
  "entryLine idx m = showNat (idx + 1) @ ''. '' @ strMeal m @ '' (ID: '' @ idMeal m @ '')''"

definition andMore :: "nat \<Rightarrow> string" where
  "andMore n = ''...and '' @ showNat n @ '' more'' @ [CHR 0x0A]"

text \<open>
  \<^verbatim>\<open>displayMeals(meals)\<close> on a heap: the lines given to \<^verbatim>\<open>console.log\<close>, in order, and the
  heap afterwards.
\<close>

definition displayMeals :: "(string \<Rightarrow> string \<Rightarrow> int) \<Rightarrow> heap \<Rightarrow> ref \<Rightarrow> string list \<times> heap" where
  "displayMeals localeCompare h meals =
     (if length (h ! meals) = 0 then ([resultsHeading, noMatches], h)
      else
        let (copy, h1) = arraySlice h meals 0 (length (h ! meals));
            (sorted, h2) = arraySort (\<lambda>a b. localeCompare (strMeal a) (strMeal b)) h1 copy;
            (shown, h3) = arraySlice h2 sorted 0 MAX_RESULTS_TO_SHOW;
            entries = map (\<lambda>(idx, m). entryLine idx m) (enumerate 0 (h3 ! shown));
            (mapped, h4) = alloc (h3 ! shown) h3
        in (resultsHeading # entries
              @ [if length (h4 ! meals) > MAX_RESULTS_TO_SHOW
                 then andMore (length (h4 ! meals) - MAX_RESULTS_TO_SHOW) else []],
            h4))"


section \<open>The session\<close>








section \<open>Sample data\<close>

text \<open>A meal with the given identifier and name, and two lookup services.\<close>

definition recipe :: "string \<Rightarrow> string \<Rightarrow> meal" where
  "recipe i n = \<lparr>idMeal = i, strMeal = n, strMealThumb = []\<rparr>"

definition sampleMeals :: "nat \<Rightarrow> meal list" where
  "sampleMeals n = map (\<lambda>i. recipe (showNat i) (''Meal '' @ showNat i)) [0..<n]"



section \<open>Notions used to state the results\<close>

text \<open>Each key once, in the order of its first occurrence.\<close>

function firstSeenOrder :: "string list \<Rightarrow> string list" where
  "firstSeenOrder [] = []"
| "firstSeenOrder (k # ks) = k # firstSeenOrder (filter (\<lambda>k'. k' \<noteq> k) ks)"
  by pat_completeness auto
termination
  by (relation "measure length") (auto simp: less_Suc_eq_le)

text \<open>A key joins the end of the key sequence unless it is already there.\<close>

definition addKey :: "string list \<Rightarrow> string \<Rightarrow> string list" where
  "addKey ks k = (if k \<in> set ks then ks else ks @ [k])"

text \<open>The right-to-left reduction as a structural recursion, used in the proofs only.\<close>

fun reduceRight :: "meal list list \<Rightarrow> meal list" where
  "reduceRight [] = []"
| "reduceRight [l] = l"
| "reduceRight (l # ls) = intersectTwoLists l (reduceRight ls)"

section \<open>Auxiliary facts\<close>

lemma intersectTwoLists_filter:
  "intersectTwoLists a b = filter (\<lambda>m. idMeal m \<in> ids b) a"
proof -
  have "list_ex (\<lambda>mealB. idMeal mealB = idMeal m) b \<longleftrightarrow> idMeal m \<in> ids b" for m :: meal
    unfolding ids_def list_ex_iff by (metis imageE image_eqI)
  then show ?thesis
    by (simp add: intersectTwoLists_def)
qed

lemma ids_intersectTwoLists: "ids (intersectTwoLists a b) = ids a \<inter> ids b"
  by (auto simp: intersectTwoLists_filter ids_def)

lemma reduceRight_filter:
  "reduceRight (l # ls) = filter (\<lambda>m. \<forall>l' \<in> set ls. idMeal m \<in> ids l') l"
proof (induction ls arbitrary: l)
  case Nil
  show ?case by simp
next
  case (Cons a ls)
  have "reduceRight (l # a # ls) = intersectTwoLists l (reduceRight (a # ls))"
    by simp
  also have "\<dots> = filter (\<lambda>m. idMeal m \<in> ids (reduceRight (a # ls))) l"
    by (rule intersectTwoLists_filter)
  also have "\<dots> = filter (\<lambda>m. \<forall>l' \<in> set (a # ls). idMeal m \<in> ids l') l"
    by (rule filter_cong) (auto simp: Cons.IH ids_def)
  finally show ?case .
qed

lemma foldl_intersect_filter:
  "foldl intersectTwoLists l ls = filter (\<lambda>m. \<forall>l' \<in> set ls. idMeal m \<in> ids l') l"
proof (induction ls arbitrary: l)
  case Nil
  show ?case by simp
next
  case (Cons a ls)
  show ?case
    by (simp add: Cons.IH) (simp add: intersectTwoLists_filter conj_commute)
qed

lemma intersectAllRecursively_in_range:
  assumes "2 \<le> length mealLists" "index < length mealLists"
  shows "intersectAllRecursively mealLists index = Some (reduceRight (drop index mealLists))"
  using assms
proof (induction "length mealLists - 1 - index" arbitrary: index)
  case 0
  then have last: "index = length mealLists - 1" by simp
  with 0 have "drop index mealLists = [mealLists ! index]"
    by (metis Cons_nth_drop_Suc Suc_diff_1 drop_all le_refl less_nat_zero_code not_gr_zero)
  with 0 last show ?case
    by (subst intersectAllRecursively.simps) auto
next
  case (Suc n)
  then have notlast: "index \<noteq> length mealLists - 1" and nxt: "index + 1 < length mealLists"
    by simp_all
  from Suc have "n = length mealLists - 1 - (index + 1)" by simp
  with Suc nxt have rest:
    "intersectAllRecursively mealLists (index + 1) = Some (reduceRight (drop (index + 1) mealLists))"
    by blast
  from nxt obtain b bs where tl: "drop (index + 1) mealLists = b # bs"
    by (cases "drop (index + 1) mealLists") simp_all
  have "drop index mealLists = mealLists ! index # drop (index + 1) mealLists"
    using Suc.prems(2) by (simp add: Cons_nth_drop_Suc)
  with tl have "reduceRight (drop index mealLists)
      = intersectTwoLists (mealLists ! index) (reduceRight (drop (index + 1) mealLists))"
    by simp
  with Suc.prems notlast rest show ?case
    by (subst intersectAllRecursively.simps) auto
qed

lemma intersectAll_reduceRight: "intersectAll mealLists = Some (reduceRight mealLists)"
proof -
  consider "mealLists = []" | l where "mealLists = [l]" | "2 \<le> length mealLists"
    by (cases mealLists rule: reduceRight.cases) simp_all
  then show ?thesis
  proof cases
    case 1
    then show ?thesis
      unfolding intersectAll_def by (subst intersectAllRecursively.simps) simp
  next
    case 2
    then show ?thesis
      unfolding intersectAll_def by (subst intersectAllRecursively.simps) simp
  next
    case 3
    then have "0 < length mealLists" by linarith
    with 3 show ?thesis
      unfolding intersectAll_def by (simp only: intersectAllRecursively_in_range drop_0)
  qed
qed

lemma keys_mapSet: "map fst (mapSet k v m) = addKey (map fst m) k"
  by (induction m) (auto simp: addKey_def rev_image_eqI)

lemma keys_foldl:
  "map fst (foldl (\<lambda>m meal. mapSet (idMeal meal) meal m) m xs)
     = foldl addKey (map fst m) (map idMeal xs)"
  by (induction xs arbitrary: m) (simp_all add: keys_mapSet)

lemma foldl_addKey:
  "foldl addKey acc ks = acc @ firstSeenOrder (filter (\<lambda>k. k \<notin> set acc) ks)"
proof (induction ks arbitrary: acc)
  case Nil
  show ?case by simp
next
  case (Cons k ks)
  show ?case
  proof (cases "k \<in> set acc")
    case True
    have "addKey acc k = acc" using True by (simp add: addKey_def)
    with True show ?thesis by (simp add: Cons.IH)
  next
    case False
    have "filter (\<lambda>k'. k' \<notin> set (acc @ [k])) ks
        = filter (\<lambda>k'. k' \<noteq> k) (filter (\<lambda>k'. k' \<notin> set acc) ks)"
      by (auto intro: filter_cong)
    moreover have "addKey acc k = acc @ [k]" using False by (simp add: addKey_def)
    ultimately show ?thesis using False by (simp add: Cons.IH)
  qed
qed

lemma keys_buildMealMap: "map fst (buildMealMap xs) = firstSeenOrder (map idMeal xs)"
  by (simp add: buildMealMap_def keys_foldl foldl_addKey)

lemma set_firstSeenOrder: "set (firstSeenOrder ks) = set ks"
  by (induction ks rule: firstSeenOrder.induct) auto

lemma distinct_firstSeenOrder: "distinct (firstSeenOrder ks)"
  by (induction ks rule: firstSeenOrder.induct) (auto simp: set_firstSeenOrder)

lemma buildMealMap_snoc:
  "buildMealMap (xs @ [x]) = mapSet (idMeal x) x (buildMealMap xs)"
  by (simp add: buildMealMap_def)

lemma map_of_mapSet: "map_of (mapSet k v m) = (map_of m)(k \<mapsto> v)"
  by (induction m) (auto simp: fun_eq_iff)

lemma map_of_buildMealMap:
  "map_of (buildMealMap xs) k =
     (if k \<in> ids xs then Some (last (filter (\<lambda>x. idMeal x = k) xs)) else None)"
proof (induction xs rule: rev_induct)
  case Nil
  show ?case by (simp add: buildMealMap_def ids_def)
next
  case (snoc x xs)
  show ?case
    by (auto simp: buildMealMap_snoc map_of_mapSet snoc.IH ids_def)
qed

lemma entries_mapSet: "set (mapSet k v m) \<subseteq> insert (k, v) (set m)"
  by (induction m) (auto split: if_splits)

lemma values_keyed: "(k, v) \<in> set (buildMealMap xs) \<Longrightarrow> idMeal v = k"
proof (induction xs arbitrary: k v rule: rev_induct)
  case Nil
  then show ?case by (simp add: buildMealMap_def)
next
  case (snoc x xs)
  then show ?case
    using entries_mapSet [of "idMeal x" x "buildMealMap xs"]
    by (auto simp: buildMealMap_snoc)
qed

lemma map_idMeal_dedupe: "map idMeal (dedupe xs) = firstSeenOrder (map idMeal xs)"
proof -
  have "map idMeal (map snd (buildMealMap xs)) = map fst (buildMealMap xs)"
    by (auto dest: values_keyed)
  then show ?thesis
    by (simp add: dedupe_def mapValues_def keys_buildMealMap)
qed

lemma ids_dedupe: "ids (dedupe xs) = ids xs"
proof -
  have "set (map idMeal (dedupe xs)) = set (map idMeal xs)"
    by (simp only: map_idMeal_dedupe set_firstSeenOrder)
  then show ?thesis by (simp add: ids_def)
qed

lemma dedupe_representative:
  assumes "r \<in> set (dedupe xs)"
  shows "r = last (filter (\<lambda>x. idMeal x = idMeal r) xs)"
proof -
  from assms obtain k where e: "(k, r) \<in> set (buildMealMap xs)"
    by (auto simp: dedupe_def mapValues_def)
  then have k: "k = idMeal r" by (simp add: values_keyed)
  have "distinct (map fst (buildMealMap xs))"
    by (simp add: keys_buildMealMap distinct_firstSeenOrder)
  with e have "map_of (buildMealMap xs) k = Some r" by simp
  then show ?thesis
    by (simp add: map_of_buildMealMap k split: if_splits)
qed

lemma ids_reduceRight:
  "mealLists \<noteq> [] \<Longrightarrow> ids (reduceRight mealLists) = (\<Inter>l \<in> set mealLists. ids l)"
proof (cases mealLists)
  case Nil
  then show "mealLists \<noteq> [] \<Longrightarrow> ?thesis" by simp
next
  case (Cons l ls)
  show ?thesis
    unfolding Cons reduceRight_filter by (auto simp: ids_def)
qed

lemma lower_code: 
  assumes "isUpperCase c"
  shows "(of_char (char_of ((of_char c :: nat) + 32)) :: nat) = of_char c + 32"
proof -
  from assms have "(of_char c :: nat) + 32 < 256"
    unfolding isUpperCase_def Let_def by linarith
  then show ?thesis by simp
qed

lemma toLowerChar_not_upper: "\<not> isUpperCase (toLowerChar c)"
proof (cases "isUpperCase c")
  case False
  then show ?thesis by (simp add: toLowerChar_def)
next
  case True
  have "\<not> isUpperCase (char_of ((of_char c :: nat) + 32))"
    using True unfolding isUpperCase_def [of "char_of _"] lower_code [OF True] Let_def 
    unfolding isUpperCase_def Let_def by linarith
  with True show ?thesis
    by (simp add: toLowerChar_def)
qed

lemma isWhiteSpace_toLowerChar: "isWhiteSpace (toLowerChar c) = isWhiteSpace c"
proof (cases "isUpperCase c")
  case False
  then show ?thesis by (simp add: toLowerChar_def)
next
  case True
  then have "\<not> isWhiteSpace c"
    unfolding isUpperCase_def isWhiteSpace_def Let_def by auto
  moreover have "\<not> isWhiteSpace (char_of ((of_char c :: nat) + 32))"
    using True unfolding isWhiteSpace_def lower_code [OF True] 
    unfolding isUpperCase_def Let_def by auto
  ultimately show ?thesis using True
    by (simp add: toLowerChar_def)
qed

lemma toLowerChar_idem: "toLowerChar (toLowerChar c) = toLowerChar c"
  using toLowerChar_not_upper [of c] by (simp add: toLowerChar_def)

lemma toLowerCase_idem: "toLowerCase (toLowerCase s) = toLowerCase s"
  by (simp add: toLowerCase_def toLowerChar_idem)

lemma trim_ends:
  assumes "trim s \<noteq> []"
  shows "\<not> isWhiteSpace (hd (trim s))" and "\<not> isWhiteSpace (last (trim s))"
proof -
  define ys where "ys = dropWhile isWhiteSpace s"
  have t: "trim s = rev (dropWhile isWhiteSpace (rev ys))"
    by (simp add: trim_def ys_def)
  with assms have ne: "dropWhile isWhiteSpace (rev ys) \<noteq> []" by simp
  then show "\<not> isWhiteSpace (last (trim s))"
    by (simp add: t last_rev hd_dropWhile)
  have "ys = trim s @ rev (takeWhile isWhiteSpace (rev ys))"
    by (metis t rev_append rev_rev_ident takeWhile_dropWhile_id)
  with assms have "hd ys = hd (trim s)" by (metis hd_append2)
  moreover from ne have "ys \<noteq> []" by auto
  then have "\<not> isWhiteSpace (hd ys)" unfolding ys_def by (rule hd_dropWhile)
  ultimately show "\<not> isWhiteSpace (hd (trim s))" by simp
qed

lemma splitComma_nonempty: "splitComma raw \<noteq> []"
  by (induction raw) (auto split: list.splits)

lemma join_Cons: "ps \<noteq> [] \<Longrightarrow> join sep (p # ps) = p @ sep @ join sep ps"
  by (cases ps) simp_all

lemma join_splitComma: "join '','' (splitComma raw) = raw"
proof (induction raw)
  case Nil
  show ?case by simp
next
  case (Cons c cs)
  obtain p ps where sp: "splitComma cs = p # ps"
    using splitComma_nonempty [of cs] by (cases "splitComma cs") auto
  show ?case
  proof (cases "c = CHR '',''")
    case True
    with Cons show ?thesis by (simp add: join_Cons splitComma_nonempty)
  next
    case False
    with Cons sp show ?thesis by (cases ps) simp_all
  qed
qed

lemma splitComma_no_comma: "p \<in> set (splitComma raw) \<Longrightarrow> CHR '','' \<notin> set p"
  by (induction raw arbitrary: p) (auto split: if_splits list.splits)

lemma parse_nonempty_tokens: "t \<in> set (parseIngredients raw) \<Longrightarrow> t \<noteq> []"
  by (auto simp: parseIngredients_def)

lemma find_nonempty:
  "find P ts = Some t \<Longrightarrow> t \<in> set ts"
  by (induction ts) (auto split: if_splits)

lemma validate_value:
  assumes "\<forall>t \<in> set ts. t \<noteq> []"
  shows "validateIngredients ts =
      (if ts = [] then Inl EmptyIngredientList
       else if length ts > 6 then Inl TooManyIngredients
       else case find (\<lambda>i. length i < 2) ts of
              None \<Rightarrow> Inr () | Some t \<Rightarrow> Inl (IngredientTooShort t))"
proof (cases "find (\<lambda>i. length i < 2) ts")
  case None
  then show ?thesis by (simp add: validateIngredients_def)
next
  case (Some t)
  then have "t \<in> set ts" by (rule find_nonempty)
  with assms have "t \<noteq> []" by blast
  with Some show ?thesis by (simp add: validateIngredients_def)
qed

lemma find_short_None:
  "find (\<lambda>i. length i < 2) ts = None \<longleftrightarrow> (\<forall>t \<in> set ts. 2 \<le> length (t::string))"
  by (simp add: find_None_iff not_less Ball_def)

lemma find_short_Some:
  "(\<exists>t. find (\<lambda>i. length i < 2) ts = Some t) \<longleftrightarrow> (\<exists>t \<in> set ts. length (t::string) < 2)"
proof -
  have "(\<exists>t. find (\<lambda>i. length i < 2) ts = Some t) \<longleftrightarrow> find (\<lambda>i. length i < 2) ts \<noteq> None"
    by simp
  also have "\<dots> \<longleftrightarrow> (\<exists>t \<in> set ts. length t < 2)"
    by (simp add: find_None_iff Bex_def)
  finally show ?thesis .
qed

lemma mset_insertBy: "mset (insertBy cmp x xs) = add_mset x (mset xs)"
  by (induction xs) simp_all

lemma mset_sortBy: "mset (sortBy cmp xs) = mset xs"
  by (induction xs) (simp_all add: sortBy_def mset_insertBy)

lemma set_insertBy: "set (insertBy cmp x xs) = insert x (set xs)"
  by (induction xs) auto

lemma length_sortBy: "length (sortBy cmp xs) = length xs"
  by (metis mset_sortBy size_mset)

lemma sorted_insertBy:
  assumes total: "\<And>a b. cmp a b \<le> 0 \<or> cmp b a \<le> 0"
    and trans: "\<And>a b c. cmp a b \<le> 0 \<Longrightarrow> cmp b c \<le> 0 \<Longrightarrow> cmp a c \<le> 0"
    and "sorted_wrt (\<lambda>a b. cmp a b \<le> 0) xs"
  shows "sorted_wrt (\<lambda>a b. cmp a b \<le> (0::int)) (insertBy cmp x xs)"
  using assms(3)
proof (induction xs)
  case Nil
  show ?case by simp
next
  case (Cons y ys)
  show ?case
  proof (cases "cmp x y \<le> 0")
    case True
    with Cons.prems trans show ?thesis by auto
  next
    case False
    with total have "cmp y x \<le> 0" by blast
    with False Cons show ?thesis by (auto simp: set_insertBy)
  qed
qed

lemma sorted_sortBy:
  assumes "\<And>a b. cmp a b \<le> 0 \<or> cmp b a \<le> 0"
    and "\<And>a b c. cmp a b \<le> 0 \<Longrightarrow> cmp b c \<le> 0 \<Longrightarrow> cmp a c \<le> 0"
  shows "sorted_wrt (\<lambda>a b. cmp a b \<le> (0::int)) (sortBy cmp xs)"
proof (induction xs)
  case Nil
  show ?case by (simp add: sortBy_def)
next
  case (Cons x xs)
  have "sortBy cmp (x # xs) = insertBy cmp x (sortBy cmp xs)" by (simp add: sortBy_def)
  with Cons show ?case using sorted_insertBy [OF assms] by simp
qed

lemma consistent_total: "consistentComparator cmp \<Longrightarrow> cmp a b \<le> 0 \<or> cmp b a \<le> 0"
  unfolding consistentComparator_def by (metis not_le order_less_imp_le)

lemma consistent_trans:
  "consistentComparator cmp \<Longrightarrow> cmp a b \<le> 0 \<Longrightarrow> cmp b c \<le> 0 \<Longrightarrow> cmp a c \<le> 0"
  unfolding consistentComparator_def by blast

lemma sorted_by_name:
  assumes "consistentComparator localeCompare"
  shows "sorted_wrt (\<lambda>a b. localeCompare (strMeal a) (strMeal b) \<le> 0)
           (sortBy (\<lambda>a b. localeCompare (strMeal a) (strMeal b)) (ms :: meal list))"
  by (rule sorted_sortBy) (use assms consistent_total consistent_trans in blast)+

lemma displayMeals_empty:
  "h ! meals = [] \<Longrightarrow> displayMeals localeCompare h meals = ([resultsHeading, noMatches], h)"
  by (simp add: displayMeals_def)

lemma displayMeals_nonempty:
  assumes "meals < length h" "h ! meals \<noteq> []"
  shows "displayMeals localeCompare h meals =
           (let ordered = sortBy (\<lambda>a b. localeCompare (strMeal a) (strMeal b)) (h ! meals)
            in (resultsHeading # map (\<lambda>(idx, m). entryLine idx m) (enumerate 0 (take 10 ordered))
                  @ [if length (h ! meals) > 10 then andMore (length (h ! meals) - 10) else []],
                h @ [ordered, take 10 ordered, take 10 ordered]))"
  using assms
  by (simp add: displayMeals_def arraySlice_def alloc_def arraySort_def MAX_RESULTS_TO_SHOW_def
        nth_append Let_def)







lemma consistent_codeUnitCompare: "consistentComparator codeUnitCompare"
  unfolding consistentComparator_def codeUnitCompare_def by (auto split: if_splits)

lemma showNat_small: "n < 10 \<Longrightarrow> showNat n = [char_of (48 + n)]"
  by (subst showNat.simps) simp

lemma showNat_large:
  "10 \<le> n \<Longrightarrow> showNat n = showNat (n div 10) @ [char_of (48 + n mod 10)]"
  by (subst showNat.simps) simp

lemma showNat_nonempty: "showNat n \<noteq> []"
  by (cases "n < 10") (simp_all add: showNat_small showNat_large not_less)

lemma digit_code: "d < 10 \<Longrightarrow> (of_char (char_of (48 + d :: nat)) :: nat) = 48 + d"
  by simp

lemma showNat_digits: "c \<in> set (showNat n) \<Longrightarrow> 48 \<le> (of_char c :: nat) \<and> (of_char c :: nat) \<le> 57"
proof (induction n arbitrary: c rule: showNat.induct)
  case (1 n)
  show ?case
  proof (cases "n < 10")
    case True
    with "1.prems" have "c = char_of (48 + n)" by (simp add: showNat_small)
    with True digit_code [of n] show ?thesis by simp
  next
    case False
    then have big: "10 \<le> n" by simp
    with "1.prems" consider "c \<in> set (showNat (n div 10))" | "c = char_of (48 + n mod 10)"
      by (auto simp: showNat_large)
    then show ?thesis
    proof cases
      case 1
      with "1.IH" False show ?thesis by blast
    next
      case 2
      have "n mod 10 < 10" by simp
      from digit_code [OF this] 2 show ?thesis by simp
    qed
  qed
qed

lemma showNat_value: "foldl (\<lambda>v c. 10 * v + ((of_char c :: nat) - 48)) 0 (showNat n) = n"
proof (induction n rule: showNat.induct)
  case (1 n)
  show ?case
  proof (cases "n < 10")
    case True
    with digit_code [of n] show ?thesis by (simp add: showNat_small)
  next
    case False
    then have big: "10 \<le> n" by simp
    have "n mod 10 < 10" by simp
    from digit_code [OF this] "1.IH" False big show ?thesis
      by (simp add: showNat_large)
  qed
qed

lemma showNat_no_leading_zero: "0 < n \<Longrightarrow> (of_char (hd (showNat n)) :: nat) \<noteq> 48"
proof (induction n rule: showNat.induct)
  case (1 n)
  show ?case
  proof (cases "n < 10")
    case True
    with digit_code [of n] "1.prems" show ?thesis by (simp add: showNat_small)
  next
    case False
    then have big: "10 \<le> n" by simp
    then have "0 < n div 10" by (simp add: div_greater_zero_iff)
    with "1.IH" False have "(of_char (hd (showNat (n div 10))) :: nat) \<noteq> 48" by blast
    with big show ?thesis by (simp add: showNat_large showNat_nonempty)
  qed
qed


section \<open>Intersection engine\<close>

text \<open>
  C1. For every sequence of meal lists \<^verbatim>\<open>intersectAllRecursively\<close> returns; for one or more
  lists the identifiers of its result are exactly the identifiers that occur in every
  list (the intersection of the lists' identifier sets), and for no list at all the
  result is empty. The deduplication that follows keeps the identifier set and leaves
  each identifier once, so the identifiers finally presented are that intersection.
\<close>

theorem intersection_identity:
  "\<exists>r. intersectAll mealLists = Some r
     \<and> (mealLists \<noteq> [] \<longrightarrow>
          ids r = (\<Inter>l \<in> set mealLists. ids l)
          \<and> ids (dedupe r) = (\<Inter>l \<in> set mealLists. ids l))
     \<and> (mealLists = [] \<longrightarrow> r = [])
     \<and> ids (dedupe r) = ids r
     \<and> distinct (map idMeal (dedupe r))"
proof -
  have "reduceRight [] = []" by simp
  then show ?thesis
    by (simp add: intersectAll_reduceRight ids_reduceRight ids_dedupe map_idMeal_dedupe
          distinct_firstSeenOrder)
qed

theorem intersection_identity_example:
  "\<exists>r. intersectAll [[recipe ''A'' ''a'', recipe ''B'' ''b'', recipe ''C'' ''c''],
                       [recipe ''B'' ''b'', recipe ''C'' ''c'', recipe ''D'' ''d''],
                       [recipe ''C'' ''c'', recipe ''B'' ''b'']] = Some r
     \<and> ids r = ids [recipe ''A'' ''a'', recipe ''B'' ''b'', recipe ''C'' ''c'']
                 \<inter> (ids [recipe ''B'' ''b'', recipe ''C'' ''c'', recipe ''D'' ''d'']
                 \<inter> ids [recipe ''C'' ''c'', recipe ''B'' ''b''])
     \<and> ids (dedupe r) = ids r
     \<and> intersectAll [] = Some []"
proof -
  from intersection_identity
    [of "[[recipe ''A'' ''a'', recipe ''B'' ''b'', recipe ''C'' ''c''],
          [recipe ''B'' ''b'', recipe ''C'' ''c'', recipe ''D'' ''d''],
          [recipe ''C'' ''c'', recipe ''B'' ''b'']]"]
  obtain r where
    "intersectAll [[recipe ''A'' ''a'', recipe ''B'' ''b'', recipe ''C'' ''c''],
                   [recipe ''B'' ''b'', recipe ''C'' ''c'', recipe ''D'' ''d''],
                   [recipe ''C'' ''c'', recipe ''B'' ''b'']] = Some r"
    "ids r = ids [recipe ''A'' ''a'', recipe ''B'' ''b'', recipe ''C'' ''c'']
               \<inter> (ids [recipe ''B'' ''b'', recipe ''C'' ''c'', recipe ''D'' ''d'']
               \<inter> ids [recipe ''C'' ''c'', recipe ''B'' ''b''])"
    "ids (dedupe r) = ids r"
    by auto
  moreover from intersection_identity [of "[]"] have "intersectAll [] = Some []"
    by auto
  ultimately show ?thesis by blast
qed

text \<open>
  C4. For two or more lists the result is the first list filtered: a meal of the first
  list survives exactly when its identifier occurs in every other list, and the survivors
  keep the order they have in the first list. The same holds at every index of the
  recursion: the call at index \<open>i\<close> returns list \<open>i\<close> filtered by the lists to its
  right, so the last list is settled first and the intersection proceeds leftward.
\<close>

theorem leftmost_order:
  assumes "2 \<le> length mealLists"
  shows "intersectAll mealLists
           = Some (filter (\<lambda>m. \<forall>l \<in> set (tl mealLists). idMeal m \<in> ids l) (hd mealLists))
         \<and> (\<forall>i < length mealLists.
               intersectAllRecursively mealLists i
                 = Some (filter (\<lambda>m. \<forall>l \<in> set (drop (Suc i) mealLists). idMeal m \<in> ids l)
                           (mealLists ! i)))"
proof
  from assms obtain l ls where "mealLists = l # ls" by (cases mealLists) auto
  then show "intersectAll mealLists
           = Some (filter (\<lambda>m. \<forall>l \<in> set (tl mealLists). idMeal m \<in> ids l) (hd mealLists))"
    by (simp add: intersectAll_reduceRight reduceRight_filter)
next
  show "\<forall>i < length mealLists.
          intersectAllRecursively mealLists i
            = Some (filter (\<lambda>m. \<forall>l \<in> set (drop (Suc i) mealLists). idMeal m \<in> ids l)
                      (mealLists ! i))"
  proof (intro allI impI)
    fix i
    assume i: "i < length mealLists"
    then have "drop i mealLists = mealLists ! i # drop (Suc i) mealLists"
      by (simp add: Cons_nth_drop_Suc)
    with intersectAllRecursively_in_range [OF assms i]
    show "intersectAllRecursively mealLists i
            = Some (filter (\<lambda>m. \<forall>l \<in> set (drop (Suc i) mealLists). idMeal m \<in> ids l)
                      (mealLists ! i))"
      by (simp add: reduceRight_filter)
  qed
qed

theorem leftmost_order_example:
  "intersectAll [[recipe ''3'' ''c'', recipe ''1'' ''a'', recipe ''2'' ''b'', recipe ''3'' ''c''],
                 [recipe ''2'' ''b'', recipe ''3'' ''c'']]
     = Some [recipe ''3'' ''c'', recipe ''2'' ''b'', recipe ''3'' ''c'']"
proof -
  have "2 \<le> length [[recipe ''3'' ''c'', recipe ''1'' ''a'', recipe ''2'' ''b'', recipe ''3'' ''c''],
                     [recipe ''2'' ''b'', recipe ''3'' ''c'']]"
    by simp
  from leftmost_order [OF this] show ?thesis
    by (simp add: ids_def recipe_def)
qed

text \<open>
  C7. For every sequence of meal lists the recursive reduction returns the very list
  (same records, same order) that the iterative left fold of \<^verbatim>\<open>intersectTwoLists\<close> over
  the sequence computes.
\<close>

theorem recursion_equals_fold: "intersectAll mealLists = Some (intersectAllFold mealLists)"
proof (cases mealLists)
  case Nil
  then show ?thesis by (simp add: intersectAll_reduceRight intersectAllFold_def)
next
  case (Cons l ls)
  then show ?thesis
    by (simp add: intersectAll_reduceRight intersectAllFold_def reduceRight_filter
          foldl_intersect_filter)
qed

text \<open>
  C9. The base cases: for no list the result is the empty list, for a single list it is
  that list itself, duplicates and order included, and neither case calls
  \<^verbatim>\<open>intersectTwoLists\<close>.
\<close>

theorem base_cases:
  "intersectAll [] = Some [] \<and> intersectAll [L] = Some L
   \<and> intersectTwoListsCalls [] 0 = Some 0 \<and> intersectTwoListsCalls [L] 0 = Some 0"
  by (simp add: intersectAll_reduceRight intersectTwoListsCalls.simps)

section \<open>Deduplication\<close>

text \<open>
  C2, as the code has it. The identifiers of the deduplicated list are those of the input,
  each once, in the order of their first occurrence; the record kept for an identifier is
  the last record of the input with that identifier: \<^verbatim>\<open>Map.prototype.set\<close> on a key already
  present replaces the value and leaves the entry at its position.
\<close>

theorem dedupe_last_record_first_position:
  "map idMeal (dedupe xs) = firstSeenOrder (map idMeal xs)
   \<and> (\<forall>r \<in> set (dedupe xs). r = last (filter (\<lambda>x. idMeal x = idMeal r) xs))"
  using map_idMeal_dedupe dedupe_representative by blast

theorem dedupe_last_record_example:
  "recipe ''1'' ''later'' \<in> set (dedupe [recipe ''1'' ''first'', recipe ''2'' ''other'', recipe ''1'' ''later''])
   \<and> recipe ''1'' ''later''
       = last (filter (\<lambda>x. idMeal x = idMeal (recipe ''1'' ''later''))
                 [recipe ''1'' ''first'', recipe ''2'' ''other'', recipe ''1'' ''later''])
   \<and> map idMeal (dedupe [recipe ''1'' ''first'', recipe ''2'' ''other'', recipe ''1'' ''later''])
       = [''1'', ''2'']"
proof -
  have m: "recipe ''1'' ''later''
             \<in> set (dedupe [recipe ''1'' ''first'', recipe ''2'' ''other'', recipe ''1'' ''later''])"
    by (simp add: dedupe_def buildMealMap_def mapValues_def recipe_def)
  with dedupe_last_record_first_position
         [of "[recipe ''1'' ''first'', recipe ''2'' ''other'', recipe ''1'' ''later'']"]
  show ?thesis
    by (simp add: recipe_def)
qed

text \<open>
  The claim C2 as the specification words it (the first-seen record is kept and a later
  one does not overwrite it) fails: of two records with identifier 1 the later one is kept,
  at the position of the first.
\<close>

theorem dedupe_first_record_counterexample:
  "dedupe [recipe ''1'' ''first'', recipe ''2'' ''other'', recipe ''1'' ''later'']
     = [recipe ''1'' ''later'', recipe ''2'' ''other'']
   \<and> recipe ''1'' ''later'' \<noteq> recipe ''1'' ''first''"
  by (simp add: dedupe_def buildMealMap_def mapValues_def recipe_def)

section \<open>Parser and validator\<close>

text \<open>
  C6. Every token that \<^verbatim>\<open>parseIngredients\<close> returns is non-empty, is lower-case (lower-casing
  it changes nothing) and neither starts nor ends with white space. The tokens are the
  comma-separated pieces of the input (joined by commas the pieces give the input back, and
  no piece contains a comma), each trimmed and lower-cased, with the empty ones dropped:
  in input order, nothing reordered and no duplicate removed.
\<close>

theorem parse_tokens:
  "(\<forall>t \<in> set (parseIngredients raw).
       t \<noteq> [] \<and> toLowerCase t = t \<and> \<not> isWhiteSpace (hd t) \<and> \<not> isWhiteSpace (last t))
   \<and> parseIngredients raw
       = filter (\<lambda>t. t \<noteq> []) (map (\<lambda>p. toLowerCase (trim p)) (splitComma raw))
   \<and> join '','' (splitComma raw) = raw
   \<and> (\<forall>p \<in> set (splitComma raw). CHR '','' \<notin> set p)"
proof -
  have "t \<noteq> [] \<and> toLowerCase t = t \<and> \<not> isWhiteSpace (hd t) \<and> \<not> isWhiteSpace (last t)"
    if "t \<in> set (parseIngredients raw)" for t
  proof -
    from that obtain p where t: "t = toLowerCase (trim p)" and ne: "t \<noteq> []"
      by (auto simp: parseIngredients_def)
    then have tne: "trim p \<noteq> []" by (auto simp: toLowerCase_def)
    have "hd t = toLowerChar (hd (trim p))" "last t = toLowerChar (last (trim p))"
      using tne by (simp_all add: t toLowerCase_def hd_map last_map)
    with trim_ends [OF tne] ne show ?thesis
      by (simp add: isWhiteSpace_toLowerChar t toLowerCase_idem)
  qed
  moreover have "parseIngredients raw
       = filter (\<lambda>t. t \<noteq> []) (map (\<lambda>p. toLowerCase (trim p)) (splitComma raw))"
    by (simp add: parseIngredients_def)
  ultimately show ?thesis
    using join_splitComma splitComma_no_comma by blast
qed

theorem parse_tokens_example:
  "parseIngredients '' Chicken , RICE,, rice ,'' = [''chicken'', ''rice'', ''rice'']
   \<and> ''chicken'' \<in> set (parseIngredients '' Chicken , RICE,, rice ,'')
   \<and> toLowerCase ''chicken'' = ''chicken''
   \<and> \<not> isWhiteSpace (hd ''chicken'') \<and> \<not> isWhiteSpace (last ''chicken'')
   \<and> '' Chicken '' \<in> set (splitComma '' Chicken , RICE,, rice ,'')
   \<and> CHR '','' \<notin> set '' Chicken ''"
proof -
  have p: "parseIngredients '' Chicken , RICE,, rice ,'' = [''chicken'', ''rice'', ''rice'']"
    by code_simp
  then have m: "''chicken'' \<in> set (parseIngredients '' Chicken , RICE,, rice ,'')"
    by simp
  have "splitComma '' Chicken , RICE,, rice ,'' = ['' Chicken '', '' RICE'', [], '' rice '', []]"
    by code_simp
  then have s: "'' Chicken '' \<in> set (splitComma '' Chicken , RICE,, rice ,'')"
    by simp
  note t = parse_tokens [of "'' Chicken , RICE,, rice ,''"]
  from t m have "toLowerCase ''chicken'' = ''chicken''
      \<and> \<not> isWhiteSpace (hd ''chicken'') \<and> \<not> isWhiteSpace (last ''chicken'')"
    by blast
  moreover from t s have "CHR '','' \<notin> set '' Chicken ''"
    by blast
  ultimately show ?thesis
    using p m s by blast
qed

text \<open>
  C5. On the tokens of any input, \<^verbatim>\<open>validateIngredients\<close> checks in this order: it fails
  with \<open>EmptyIngredientList\<close> exactly when there is no token; with \<open>TooManyIngredients\<close>
  exactly when there are more than six; with \<open>IngredientTooShort\<close> exactly when there are
  one to six tokens and one of them is shorter than two characters, and the token it
  carries is the first such; and it succeeds exactly when there are one to six tokens, all
  of two characters or more.
\<close>

theorem validate_in_order:
  "(validateIngredients (parseIngredients raw) = Inl EmptyIngredientList
      \<longleftrightarrow> parseIngredients raw = [])
   \<and> (validateIngredients (parseIngredients raw) = Inl TooManyIngredients
      \<longleftrightarrow> length (parseIngredients raw) > 6)
   \<and> (validateIngredients (parseIngredients raw) = Inl (IngredientTooShort t)
      \<longleftrightarrow> parseIngredients raw \<noteq> [] \<and> length (parseIngredients raw) \<le> 6
          \<and> find (\<lambda>i. length i < 2) (parseIngredients raw) = Some t)
   \<and> ((\<exists>t. validateIngredients (parseIngredients raw) = Inl (IngredientTooShort t))
      \<longleftrightarrow> parseIngredients raw \<noteq> [] \<and> length (parseIngredients raw) \<le> 6
          \<and> (\<exists>t \<in> set (parseIngredients raw). length t < 2))
   \<and> (validateIngredients (parseIngredients raw) = Inr ()
      \<longleftrightarrow> parseIngredients raw \<noteq> [] \<and> length (parseIngredients raw) \<le> 6
          \<and> (\<forall>t \<in> set (parseIngredients raw). 2 \<le> length t))"
proof -
  define ts where "ts = parseIngredients raw"
  define short where "short = find (\<lambda>i. length i < 2) ts"
  have "\<forall>t \<in> set ts. t \<noteq> []"
    unfolding ts_def using parse_nonempty_tokens by blast
  then have v: "validateIngredients ts =
      (if ts = [] then Inl EmptyIngredientList
       else if length ts > 6 then Inl TooManyIngredients
       else case short of None \<Rightarrow> Inr () | Some t \<Rightarrow> Inl (IngredientTooShort t))"
    unfolding short_def by (rule validate_value)
  have none: "short = None \<longleftrightarrow> (\<forall>t \<in> set ts. 2 \<le> length t)"
    unfolding short_def by (rule find_short_None)
  have some: "(\<exists>t. short = Some t) \<longleftrightarrow> (\<exists>t \<in> set ts. length t < 2)"
    unfolding short_def by (rule find_short_Some)
  have c1: "validateIngredients ts = Inl EmptyIngredientList \<longleftrightarrow> ts = []"
    unfolding v by (simp split: option.splits)
  have c2: "validateIngredients ts = Inl TooManyIngredients \<longleftrightarrow> length ts > 6"
    unfolding v by (auto split: option.splits)
  have c3: "validateIngredients ts = Inl (IngredientTooShort s)
      \<longleftrightarrow> ts \<noteq> [] \<and> length ts \<le> 6 \<and> short = Some s" for s
    unfolding v by (auto split: option.splits)
  have c4: "(\<exists>t. validateIngredients ts = Inl (IngredientTooShort t))
      \<longleftrightarrow> ts \<noteq> [] \<and> length ts \<le> 6 \<and> (\<exists>t \<in> set ts. length t < 2)"
    unfolding some [symmetric] c3 by simp
  have c5: "validateIngredients ts = Inr () \<longleftrightarrow> ts \<noteq> [] \<and> length ts \<le> 6 \<and> short = None"
    unfolding v by (auto split: option.splits)
  show ?thesis
    unfolding ts_def [symmetric] short_def [symmetric]
    using c1 c2 c3 [of t] c4 c5 none by blast
qed

theorem validate_in_order_example:
  "validateIngredients (parseIngredients ''a, beef'') = Inl (IngredientTooShort ''a'')
   \<and> validateIngredients (parseIngredients ''chicken, rice'') = Inr ()
   \<and> validateIngredients (parseIngredients '' , '') = Inl EmptyIngredientList
   \<and> validateIngredients (parseIngredients ''ab,cd,ef,gh,ij,kl,m'') = Inl TooManyIngredients"
proof -
  have p1: "parseIngredients ''a, beef'' = [''a'', ''beef'']" by code_simp
  have p2: "parseIngredients ''chicken, rice'' = [''chicken'', ''rice'']" by code_simp
  have p3: "parseIngredients '' , '' = []" by code_simp
  have p4: "parseIngredients ''ab,cd,ef,gh,ij,kl,m''
              = [''ab'', ''cd'', ''ef'', ''gh'', ''ij'', ''kl'', ''m'']" by code_simp
  from validate_in_order [of "''a, beef''" "''a''"]
  have "validateIngredients (parseIngredients ''a, beef'') = Inl (IngredientTooShort ''a'')"
    unfolding p1 by simp
  moreover from validate_in_order [of "''chicken, rice''"]
  have "validateIngredients (parseIngredients ''chicken, rice'') = Inr ()"
    unfolding p2 by simp
  moreover from validate_in_order [of "'' , ''"]
  have "validateIngredients (parseIngredients '' , '') = Inl EmptyIngredientList"
    unfolding p3 by simp
  moreover from validate_in_order [of "''ab,cd,ef,gh,ij,kl,m''"]
  have "validateIngredients (parseIngredients ''ab,cd,ef,gh,ij,kl,m'') = Inl TooManyIngredients"
    unfolding p4 by simp
  ultimately show ?thesis by simp
qed

section \<open>Presenter\<close>

text \<open>
  C8. Given a consistent comparison of names, \<^verbatim>\<open>displayMeals\<close> logs, for an empty list, the
  results heading and the line "No matching recipes found for those ingredients."; for a
  non-empty list the heading, then for each of the first ten meals of the list sorted
  ascending by name (the same meals, rearranged) the line "k. name (ID: id)" with its
  position k counted from 1, then a closing line that is "...and N more" with N the number
  of meals beyond ten when there are more than ten, and is empty otherwise. For fifteen
  meals that is ten entries and "...and 5 more". The numbers are printed as their decimal
  digits, without leading zeros.
\<close>

theorem display_output:
  assumes "consistentComparator localeCompare" "meals < length h"
  shows "(h ! meals = [] \<longrightarrow>
           fst (displayMeals localeCompare h meals)
             = [[CHR 0x0A] @ ''=== Recipe Finder Results ==='',
                ''No matching recipes found for those ingredients.'' @ [CHR 0x0A]])
    \<and> (h ! meals \<noteq> [] \<longrightarrow>
         (\<exists>ordered. mset ordered = mset (h ! meals)
            \<and> sorted_wrt (\<lambda>a b. localeCompare (strMeal a) (strMeal b) \<le> 0) ordered
            \<and> fst (displayMeals localeCompare h meals)
                = ([CHR 0x0A] @ ''=== Recipe Finder Results ==='')
                  # map (\<lambda>(idx, m). showNat (idx + 1) @ ''. '' @ strMeal m
                                      @ '' (ID: '' @ idMeal m @ '')'')
                        (enumerate 0 (take 10 ordered))
                  @ [if length (h ! meals) > 10
                     then ''...and '' @ showNat (length (h ! meals) - 10) @ '' more'' @ [CHR 0x0A]
                     else []]))
    \<and> (length (h ! meals) = 15 \<longrightarrow>
         length (fst (displayMeals localeCompare h meals)) = 12
         \<and> last (fst (displayMeals localeCompare h meals)) = ''...and 5 more'' @ [CHR 0x0A])
    \<and> showNat n \<noteq> []
    \<and> (\<forall>c \<in> set (showNat n). 48 \<le> (of_char c :: nat) \<and> (of_char c :: nat) \<le> 57)
    \<and> foldl (\<lambda>v c. 10 * v + ((of_char c :: nat) - 48)) 0 (showNat n) = n
    \<and> (n < 10 \<longrightarrow> length (showNat n) = 1)
    \<and> (0 < n \<longrightarrow> (of_char (hd (showNat n)) :: nat) \<noteq> 48)"
proof -
  have empty: "h ! meals = [] \<longrightarrow>
           fst (displayMeals localeCompare h meals)
             = [[CHR 0x0A] @ ''=== Recipe Finder Results ==='',
                ''No matching recipes found for those ingredients.'' @ [CHR 0x0A]]"
    by (simp add: displayMeals_empty resultsHeading_def noMatches_def)
  have full: "h ! meals \<noteq> [] \<longrightarrow>
         (\<exists>ordered. mset ordered = mset (h ! meals)
            \<and> sorted_wrt (\<lambda>a b. localeCompare (strMeal a) (strMeal b) \<le> 0) ordered
            \<and> fst (displayMeals localeCompare h meals)
                = ([CHR 0x0A] @ ''=== Recipe Finder Results ==='')
                  # map (\<lambda>(idx, m). showNat (idx + 1) @ ''. '' @ strMeal m
                                      @ '' (ID: '' @ idMeal m @ '')'')
                        (enumerate 0 (take 10 ordered))
                  @ [if length (h ! meals) > 10
                     then ''...and '' @ showNat (length (h ! meals) - 10) @ '' more'' @ [CHR 0x0A]
                     else []])"
  proof
    assume ne: "h ! meals \<noteq> []"
    let ?s = "sortBy (\<lambda>a b. localeCompare (strMeal a) (strMeal b)) (h ! meals)"
    have "mset ?s = mset (h ! meals)" by (rule mset_sortBy)
    moreover have "sorted_wrt (\<lambda>a b. localeCompare (strMeal a) (strMeal b) \<le> 0) ?s"
      using assms(1) by (rule sorted_by_name)
    moreover have "fst (displayMeals localeCompare h meals)
        = ([CHR 0x0A] @ ''=== Recipe Finder Results ==='')
          # map (\<lambda>(idx, m). showNat (idx + 1) @ ''. '' @ strMeal m
                              @ '' (ID: '' @ idMeal m @ '')'')
                (enumerate 0 (take 10 ?s))
          @ [if length (h ! meals) > 10
             then ''...and '' @ showNat (length (h ! meals) - 10) @ '' more'' @ [CHR 0x0A]
             else []]"
      using displayMeals_nonempty [OF assms(2) ne]
      by (simp add: Let_def resultsHeading_def entryLine_def andMore_def)
    ultimately show "\<exists>ordered. mset ordered = mset (h ! meals)
            \<and> sorted_wrt (\<lambda>a b. localeCompare (strMeal a) (strMeal b) \<le> 0) ordered
            \<and> fst (displayMeals localeCompare h meals)
                = ([CHR 0x0A] @ ''=== Recipe Finder Results ==='')
                  # map (\<lambda>(idx, m). showNat (idx + 1) @ ''. '' @ strMeal m
                                      @ '' (ID: '' @ idMeal m @ '')'')
                        (enumerate 0 (take 10 ordered))
                  @ [if length (h ! meals) > 10
                     then ''...and '' @ showNat (length (h ! meals) - 10) @ '' more'' @ [CHR 0x0A]
                     else []]"
      by blast
  qed
  have fifteen: "length (h ! meals) = 15 \<longrightarrow>
         length (fst (displayMeals localeCompare h meals)) = 12
         \<and> last (fst (displayMeals localeCompare h meals)) = ''...and 5 more'' @ [CHR 0x0A]"
  proof
    assume len: "length (h ! meals) = 15"
    then have ne: "h ! meals \<noteq> []" by auto
    have five: "andMore 5 = ''...and 5 more'' @ [CHR 0x0A]"
      by code_simp
    from len have "length (fst (displayMeals localeCompare h meals)) = 12"
      by (simp add: displayMeals_nonempty [OF assms(2) ne] length_sortBy Let_def)
    moreover from len five
    have "last (fst (displayMeals localeCompare h meals)) = ''...and 5 more'' @ [CHR 0x0A]"
      by (simp add: displayMeals_nonempty [OF assms(2) ne] Let_def)
    ultimately show "length (fst (displayMeals localeCompare h meals)) = 12
         \<and> last (fst (displayMeals localeCompare h meals)) = ''...and 5 more'' @ [CHR 0x0A]"
      by (rule conjI)
  qed
  have digits: "\<forall>c \<in> set (showNat n). 48 \<le> (of_char c :: nat) \<and> (of_char c :: nat) \<le> 57"
    using showNat_digits by blast
  have one: "n < 10 \<longrightarrow> length (showNat n) = 1"
    by (simp add: showNat_small)
  have lead: "0 < n \<longrightarrow> (of_char (hd (showNat n)) :: nat) \<noteq> 48"
    using showNat_no_leading_zero by blast
  from empty full fifteen showNat_nonempty [of n] digits showNat_value [of n] one lead
  show ?thesis by (intro conjI)
qed

theorem display_output_example:
  "consistentComparator codeUnitCompare
   \<and> fst (displayMeals codeUnitCompare [[]] 0)
       = [[CHR 0x0A] @ ''=== Recipe Finder Results ==='',
          ''No matching recipes found for those ingredients.'' @ [CHR 0x0A]]
   \<and> fst (displayMeals codeUnitCompare [[recipe ''1'' ''Zeta'', recipe ''2'' ''Alpha'']] 0)
       = [[CHR 0x0A] @ ''=== Recipe Finder Results ==='',
          ''1. Alpha (ID: 2)'', ''2. Zeta (ID: 1)'', []]
   \<and> length ([sampleMeals 15] ! 0) = 15
   \<and> length (fst (displayMeals codeUnitCompare [sampleMeals 15] 0)) = 12
   \<and> last (fst (displayMeals codeUnitCompare [sampleMeals 15] 0)) = ''...and 5 more'' @ [CHR 0x0A]
   \<and> last (fst (displayMeals codeUnitCompare [sampleMeals 23] 0)) = ''...and 13 more'' @ [CHR 0x0A]
   \<and> showNat 1205 = ''1205''"
proof -
  have len: "length ([sampleMeals 15] ! 0) = 15" by (simp add: sampleMeals_def)
  have len23: "length ([sampleMeals 23] ! 0) = 23" by (simp add: sampleMeals_def)
  then have ne23: "[sampleMeals 23] ! 0 \<noteq> []" by auto
  have lt15: "0 < length [sampleMeals 15]" by simp
  have lt23: "0 < length [sampleMeals 23]" by simp
  have lt0: "0 < length [[] :: meal list]" by simp
  have empty: "[[] :: meal list] ! 0 = []" by simp
  have thirteen: "showNat 13 = ''13''" by code_simp
  have two: "fst (displayMeals codeUnitCompare [[recipe ''1'' ''Zeta'', recipe ''2'' ''Alpha'']] 0)
       = [[CHR 0x0A] @ ''=== Recipe Finder Results ==='',
          ''1. Alpha (ID: 2)'', ''2. Zeta (ID: 1)'', []]"
    by code_simp
  have big: "showNat 1205 = ''1205''" by code_simp
  note t0 = display_output [OF consistent_codeUnitCompare lt0, of 0]
  note t15 = display_output [OF consistent_codeUnitCompare lt15, of 0]
  note t23 = display_output [OF consistent_codeUnitCompare lt23, of 0]
  from t0 [THEN conjunct1] empty
  have none: "fst (displayMeals codeUnitCompare [[]] 0)
       = [[CHR 0x0A] @ ''=== Recipe Finder Results ==='',
          ''No matching recipes found for those ingredients.'' @ [CHR 0x0A]]"
    by (rule mp)
  from t15 [THEN conjunct2, THEN conjunct2, THEN conjunct1] len
  have fifteen: "length (fst (displayMeals codeUnitCompare [sampleMeals 15] 0)) = 12
      \<and> last (fst (displayMeals codeUnitCompare [sampleMeals 15] 0)) = ''...and 5 more'' @ [CHR 0x0A]"
    by (rule mp)
  from t23 [THEN conjunct2, THEN conjunct1] ne23
  have "\<exists>ordered. mset ordered = mset ([sampleMeals 23] ! 0)
            \<and> sorted_wrt (\<lambda>a b. codeUnitCompare (strMeal a) (strMeal b) \<le> 0) ordered
            \<and> fst (displayMeals codeUnitCompare [sampleMeals 23] 0)
                = ([CHR 0x0A] @ ''=== Recipe Finder Results ==='')
                  # map (\<lambda>(idx, m). showNat (idx + 1) @ ''. '' @ strMeal m
                                      @ '' (ID: '' @ idMeal m @ '')'')
                        (enumerate 0 (take 10 ordered))
                  @ [if length ([sampleMeals 23] ! 0) > 10
                     then ''...and '' @ showNat (length ([sampleMeals 23] ! 0) - 10) @ '' more'' @ [CHR 0x0A]
                     else []]"
    by (rule mp)
  then obtain entries where "fst (displayMeals codeUnitCompare [sampleMeals 23] 0)
                = ([CHR 0x0A] @ ''=== Recipe Finder Results ==='')
                  # entries
                  @ [if length ([sampleMeals 23] ! 0) > 10
                     then ''...and '' @ showNat (length ([sampleMeals 23] ! 0) - 10) @ '' more'' @ [CHR 0x0A]
                     else []]"
    by blast
  then have "last (fst (displayMeals codeUnitCompare [sampleMeals 23] 0))
      = ''...and '' @ showNat 13 @ '' more'' @ [CHR 0x0A]"
    unfolding len23 by simp
  then have more: "last (fst (displayMeals codeUnitCompare [sampleMeals 23] 0)) = ''...and 13 more'' @ [CHR 0x0A]"
    unfolding thirteen by simp
  from consistent_codeUnitCompare none two len fifteen more big show ?thesis
    by (intro conjI) (erule conjunct1 conjunct2 | assumption)+
qed

text \<open>
  C10. \<^verbatim>\<open>displayMeals\<close> does not change the array it is given: after the call the heap
  holds at the reference of the input the same meals in the same order, every array that
  existed before is as it was, and what was sorted and cut is a new array.
\<close>

theorem display_leaves_input:
  assumes "meals < length h"
  shows "snd (displayMeals localeCompare h meals) ! meals = h ! meals
         \<and> take (length h) (snd (displayMeals localeCompare h meals)) = h"
proof (cases "h ! meals = []")
  case True
  then show ?thesis by (simp add: displayMeals_empty)
next
  case False
  with assms show ?thesis
    by (simp add: displayMeals_nonempty nth_append Let_def)
qed

theorem display_leaves_input_example:
  "snd (displayMeals codeUnitCompare [[recipe ''1'' ''Zeta'', recipe ''2'' ''Alpha'']] 0) ! 0
     = [recipe ''1'' ''Zeta'', recipe ''2'' ''Alpha'']"
proof -
  have "0 < length [[recipe ''1'' ''Zeta'', recipe ''2'' ''Alpha'']]" by simp
  from display_leaves_input [OF this] show ?thesis by simp
qed

section \<open>Session\<close>




end
